theory Spec2Isabelle
  imports Main
begin

section \<open>Data model of the listing view\<close>

text \<open>
  The listing view is the component \<^verbatim>\<open>HomePage\<close> of \<^verbatim>\<open>src/app/page.tsx\<close>.
  A user summary is the interface \<^verbatim>\<open>User\<close>; the field \<^verbatim>\<open>id\<close> is called
  \<open>user_id\<close> here, since \<open>id\<close> is the identity function of HOL.
\<close>

record user =
  user_id :: int
  login :: string
  avatar_url :: string
  html_url :: string

text \<open>
  The ten \<^verbatim>\<open>useState\<close> cells of the component, under the names of the source.
  The cell \<^verbatim>\<open>error\<close> holds \<^verbatim>\<open>null\<close> (\<open>None\<close>) or a message.
\<close>

record view =
  users :: "user list"
  filteredUsers :: "user list"
  loading :: bool
  hasMore :: bool
  page :: nat
  error :: "string option"
  searchQuery :: string
  isSearching :: bool
  searchResults :: "user list"
  isInitialized :: bool

definition initial :: view where
  "initial = \<lparr> users = [], filteredUsers = [], loading = True, hasMore = True, page = 1,
     error = None, searchQuery = [], isSearching = False, searchResults = [],
     isInitialized = False \<rparr>"

section \<open>What a request can come back with\<close>

text \<open>
  A value caught by a \<^verbatim>\<open>catch\<close> block is either an \<^verbatim>\<open>Error\<close> instance, which has a
  message, or something else. A request ends in one of two ways: something is thrown
  before a body is at hand (\<^verbatim>\<open>fetch\<close> rejects, or \<^verbatim>\<open>response.json()\<close> throws), or a
  response arrives, of which the code reads \<^verbatim>\<open>response.ok\<close>, \<^verbatim>\<open>response.status\<close> and
  the parsed body.
\<close>

datatype thrown = ErrorObject string | OtherValue

datatype 'a outcome = Threw thrown | Responded bool nat 'a

text \<open>The decimal numeral that a template literal prints for a status code.\<close>

definition digit :: "nat \<Rightarrow> char" where
  "digit d = char_of (of_char (CHR ''0'') + d)"

fun string_of_nat :: "nat \<Rightarrow> string" where
  "string_of_nat n =
     (if n < 10 then [digit n] else string_of_nat (n div 10) @ [digit (n mod 10)])"

text \<open>\<^verbatim>\<open>new Error(`HTTP error! status: ${response.status}`)\<close>\<close>

definition http_error :: "nat \<Rightarrow> thrown" where
  "http_error st = ErrorObject (''HTTP error! status: '' @ string_of_nat st)"

text \<open>\<^verbatim>\<open>err instanceof Error ? err.message : fallback\<close>\<close>

definition catch_message :: "string \<Rightarrow> thrown \<Rightarrow> string" where
  "catch_message fallback err = (case err of ErrorObject m \<Rightarrow> m | OtherValue \<Rightarrow> fallback)"

text \<open>
  Both async functions start their \<^verbatim>\<open>try\<close> block the same way: they await the
  response, throw an \<^verbatim>\<open>Error\<close> when \<^verbatim>\<open>response.ok\<close> is unset, and await the body.
  \<open>check_ok\<close> is that prefix: the value that reaches the \<^verbatim>\<open>catch\<close> block (\<open>Inl\<close>) or
  the body (\<open>Inr\<close>).
\<close>

definition check_ok :: "'a outcome \<Rightarrow> thrown + 'a" where
  "check_ok r =
     (case r of
        Threw err \<Rightarrow> Inl err
      | Responded ok st body \<Rightarrow> if \<not> ok then Inl (http_error st) else Inr body)"

section \<open>Page loads: fetchUsers\<close>

text \<open>
  \<^verbatim>\<open>fetchUsers\<close> is an async function with one suspension point that matters, the
  \<^verbatim>\<open>await fetch(...)\<close>. It is split there: \<open>fetchUsers_begin\<close> is what runs when the
  function is called (lines 29-32), \<open>fetchUsers_resolve\<close> what runs when the request
  comes back (lines 38-71), on the state the view has at that moment.
\<close>

definition fetchUsers_begin :: "nat \<Rightarrow> view \<Rightarrow> view" where
  "fetchUsers_begin pageNum s =
     (let s1 = (if pageNum = 1 then s\<lparr>loading := True\<rparr> else s)
      in s1\<lparr>error := None\<rparr>)"

text \<open>
  The updater passed to \<^verbatim>\<open>setUsers\<close> for a page after the first (lines 54-63): the
  entries of the new page whose identifier is not in the listing are appended.
\<close>

definition merge_page :: "user list \<Rightarrow> user list \<Rightarrow> user list" where
  "merge_page prevUsers data =
     (let existingIds = set (map user_id prevUsers);
          uniqueNewUsers = filter (\<lambda>u. user_id u \<notin> existingIds) data
      in prevUsers @ uniqueNewUsers)"

definition fetchUsers_resolve :: "nat \<Rightarrow> user list outcome \<Rightarrow> view \<Rightarrow> view" where
  "fetchUsers_resolve pageNum r s =
     (let s1 = (case check_ok r of
                  Inl err \<Rightarrow> s\<lparr>error := Some (catch_message ''Failed to fetch users'' err)\<rparr>
                | Inr data \<Rightarrow>
                    if data = [] then s\<lparr>hasMore := False\<rparr>
                    else if pageNum = 1
                      then s\<lparr>users := data, filteredUsers := data, isInitialized := True,
                             page := pageNum\<rparr>
                      else (let newUsers = merge_page (users s) data
                            in s\<lparr>users := newUsers, filteredUsers := newUsers,
                                 page := pageNum\<rparr>))
      in s1\<lparr>loading := False\<rparr>)"

section \<open>Search: searchUsers and the debounce timer\<close>

text \<open>
  \<^verbatim>\<open>String.prototype.trim\<close> strips white space and line terminators from both ends.
  A \<open>char\<close> is one byte here, so the white space of the model is the part of
  JavaScript's that lies below 256: tab, line feed, vertical tab, form feed, carriage
  return, space and no-break space. \<open>blank q\<close> is the test \<^verbatim>\<open>!q.trim()\<close>.
\<close>

definition is_space :: "char \<Rightarrow> bool" where
  "is_space c = ((of_char c :: nat) \<in> {9, 10, 11, 12, 13, 32, 160})"

definition trim :: "string \<Rightarrow> string" where
  "trim q = rev (dropWhile is_space (rev (dropWhile is_space q)))"

definition blank :: "string \<Rightarrow> bool" where
  "blank q = (trim q = [])"

text \<open>
  A search request in flight remembers the argument \<^verbatim>\<open>query\<close> and the value of
  \<^verbatim>\<open>users\<close> that the callback closed over (\<^verbatim>\<open>useCallback(..., [users])\<close>): the
  \<^verbatim>\<open>catch\<close> block reads both.
\<close>

type_synonym search_request = "string \<times> user list"

text \<open>
  \<open>searchUsers_call\<close> is the part of \<^verbatim>\<open>searchUsers\<close> before the \<^verbatim>\<open>await\<close>
  (lines 76-85). Its second component is the request it issues, if any.
\<close>

definition searchUsers_call ::
  "user list \<Rightarrow> string \<Rightarrow> view \<Rightarrow> view \<times> search_request option" where
  "searchUsers_call captured query s =
     (if blank query
      then (s\<lparr>isSearching := False, searchResults := [], filteredUsers := captured\<rparr>, None)
      else (s\<lparr>isSearching := True, error := None\<rparr>, Some (query, captured)))"

text \<open>
  The rest of \<^verbatim>\<open>searchUsers\<close> (lines 94-111). The body of a search response is the
  field \<^verbatim>\<open>items\<close> of the container, \<open>None\<close> when it is absent:
  \<^verbatim>\<open>data.items || []\<close>.
\<close>

definition searchUsers_resolve ::
  "search_request \<Rightarrow> user list option outcome \<Rightarrow> view \<Rightarrow> view" where
  "searchUsers_resolve req r s =
     (let query = fst req; captured = snd req;
          s1 = (case check_ok r of
                  Inl err \<Rightarrow>
                    (let s2 = s\<lparr>error := Some (catch_message ''Failed to search users'' err),
                                searchResults := []\<rparr>
                     in if blank query then s2\<lparr>filteredUsers := captured\<rparr> else s2)
                | Inr body \<Rightarrow>
                    (let searchItems = (case body of None \<Rightarrow> [] | Some items \<Rightarrow> items)
                     in s\<lparr>searchResults := searchItems, filteredUsers := searchItems\<rparr>))
      in s1\<lparr>isSearching := False\<rparr>)"

text \<open>
  The callback of the debounce timer (lines 124-132). The effect that sets the timer
  depends on \<^verbatim>\<open>searchQuery\<close>, \<^verbatim>\<open>users\<close> and \<^verbatim>\<open>searchUsers\<close>, and its cleanup clears
  the timer, so the timer that is pending belongs to the latest render: its callback
  reads the current query and listing.
\<close>

definition debounce_fire :: "view \<Rightarrow> view \<times> search_request option" where
  "debounce_fire s =
     (if \<not> blank (searchQuery s)
      then searchUsers_call (users s) (searchQuery s) s
      else (s\<lparr>isSearching := False, searchResults := [], filteredUsers := users s\<rparr>, None))"

definition clearSearch :: "view \<Rightarrow> view" where
  "clearSearch s =
     s\<lparr>searchQuery := [], isSearching := False, searchResults := [],
       filteredUsers := users s, error := None\<rparr>"

section \<open>The viewport watcher and retry\<close>

text \<open>
  \<^verbatim>\<open>lastUserRef\<close> (lines 137-152) is handed to the last card of the grid when the query
  is the empty string (line 415). It is created anew whenever \<^verbatim>\<open>loading\<close>, \<^verbatim>\<open>hasMore\<close>,
  \<^verbatim>\<open>page\<close> or \<^verbatim>\<open>searchQuery\<close> changes; React then calls the old callback with
  \<^verbatim>\<open>null\<close>, which disconnects the observer it made, and the new one with the node. So
  the observer that watches a node, if there is one, was made by the callback of the
  latest render and reads that render's \<^verbatim>\<open>hasMore\<close> and \<^verbatim>\<open>page\<close>.
  \<open>lastUserRef_arms\<close> is the guard of line 139, \<open>observer_callback\<close> the body of the
  observer (lines 144-146): the page it asks \<^verbatim>\<open>fetchUsers\<close> for, if any.
\<close>

definition lastUserRef_arms :: "view \<Rightarrow> bool" where
  "lastUserRef_arms s = (\<not> (loading s \<or> \<not> blank (searchQuery s)))"

definition observer_callback :: "bool \<Rightarrow> view \<Rightarrow> nat option" where
  "observer_callback isIntersecting s =
     (if isIntersecting \<and> hasMore s then Some (page s + 1) else None)"

text \<open>\<^verbatim>\<open>retryFetch\<close> (lines 154-157) up to the \<^verbatim>\<open>await\<close> of the call \<^verbatim>\<open>fetchUsers(1)\<close>.\<close>

definition retryFetch :: "view \<Rightarrow> view" where
  "retryFetch s = fetchUsers_begin 1 (s\<lparr>error := None\<rparr>)"

section \<open>What is rendered\<close>

text \<open>
  The component returns the full-screen loading view while \<^verbatim>\<open>isInitialized\<close> is unset
  (lines 168-198) and the dashboard otherwise. Of the dashboard the model keeps the parts
  that depend on the state. JavaScript's \<^verbatim>\<open>x && ...\<close> renders the block when \<open>x\<close> is
  truthy: a string is truthy when it is not empty, so an error whose message is the empty
  string shows no error block.
\<close>

datatype search_status = Searching | Found nat | NoUsersFound

record dashboard =
  clear_button :: bool
  status_line :: "search_status option"
  clear_link :: bool
  total :: nat
  activity_indicator :: bool
  error_block :: "string option"
  grid :: "user list"
  last_card_watched :: bool
  end_notice :: bool

datatype screen = LoadingScreen | Dashboard dashboard

definition truthy :: "string \<Rightarrow> bool" where
  "truthy str = (str \<noteq> [])"

definition render :: "view \<Rightarrow> screen" where
  "render s =
     (if \<not> isInitialized s then LoadingScreen
      else Dashboard \<lparr>
        clear_button = truthy (searchQuery s),
        status_line =
          (if truthy (searchQuery s)
           then Some (if isSearching s then Searching
                      else if length (searchResults s) > 0 then Found (length (searchResults s))
                      else NoUsersFound)
           else None),
        clear_link = (truthy (searchQuery s) \<and> length (searchResults s) > 0),
        total = (if truthy (searchQuery s) then length (searchResults s) else length (users s)),
        activity_indicator = (loading s \<and> \<not> truthy (searchQuery s)),
        error_block = (case error s of None \<Rightarrow> None
                       | Some m \<Rightarrow> if truthy m then Some m else None),
        grid = filteredUsers s,
        last_card_watched = (filteredUsers s \<noteq> [] \<and> \<not> truthy (searchQuery s)),
        end_notice = (\<not> hasMore s \<and> length (users s) > 0 \<and> \<not> truthy (searchQuery s)) \<rparr>)"

text \<open>What the user can click or type into, and whether a card carries the watcher.\<close>

definition retry_button :: "view \<Rightarrow> bool" where
  "retry_button s = (case render s of LoadingScreen \<Rightarrow> False | Dashboard d \<Rightarrow> error_block d \<noteq> None)"

definition clear_control :: "view \<Rightarrow> bool" where
  "clear_control s = (case render s of LoadingScreen \<Rightarrow> False | Dashboard d \<Rightarrow> clear_button d \<or> clear_link d)"

definition search_input :: "view \<Rightarrow> bool" where
  "search_input s = (case render s of LoadingScreen \<Rightarrow> False | Dashboard d \<Rightarrow> True)"

definition watcher_armed :: "view \<Rightarrow> bool" where
  "watcher_armed s =
     (case render s of LoadingScreen \<Rightarrow> False
      | Dashboard d \<Rightarrow> last_card_watched d \<and> lastUserRef_arms s)"

section \<open>The view as a transition system\<close>

text \<open>
  All code of the view runs on one thread, one handler at a time. A run of the view is
  a list of events; each event runs one handler on the current state. Besides the state
  cells the system keeps what the handlers hand to the environment: the page numbers and
  the search requests sent so far, in order, the positions of those that have come back,
  and whether the debounce timer is pending.
\<close>

record system =
  ui :: view
  page_sent :: "nat list"
  page_done :: "nat list"
  search_sent :: "search_request list"
  search_done :: "nat list"
  timer :: bool

datatype event =
    PageResolves nat "user list outcome"
  | SearchResolves nat "user list option outcome"
  | Typed string
  | TimerFires
  | Intersects bool
  | RetryClicked
  | ClearClicked

text \<open>
  Mounting the component runs both effects: \<^verbatim>\<open>fetchUsers(1)\<close> (lines 116-121) and the
  first debounce timer (lines 123-135).
\<close>

definition mount :: system where
  "mount = \<lparr> ui = fetchUsers_begin 1 initial, page_sent = [1], page_done = [],
     search_sent = [], search_done = [], timer = True \<rparr>"

text \<open>
  A successful page load with a non-empty body stores a new array in \<^verbatim>\<open>users\<close>, which
  re-runs the debounce effect and so sets a new timer.
\<close>

definition stores_users :: "user list outcome \<Rightarrow> bool" where
  "stores_users r = (case check_ok r of Inl err \<Rightarrow> False | Inr data \<Rightarrow> data \<noteq> [])"

text \<open>
  The events and the handler each one runs:
  \<^item> \<open>PageResolves i r\<close>: the page request at position \<open>i\<close> comes back with \<open>r\<close>, and the
    rest of \<^verbatim>\<open>fetchUsers\<close> runs. Nothing happens if no such request is in flight.
  \<^item> \<open>SearchResolves i r\<close>: the same for the search request at position \<open>i\<close>.
  \<^item> \<open>Typed q\<close>: the search box, which exists on the dashboard only, reports the new
    value \<open>q\<close> (\<^verbatim>\<open>onChange\<close>, line 272). The query changes, so the debounce effect runs
    again: the pending timer is cleared and a new one is set.
  \<^item> \<open>TimerFires\<close>: the pending timer, if there is one, runs its callback.
  \<^item> \<open>Intersects b\<close>: the observer reports the watched card with \<^verbatim>\<open>isIntersecting\<close> equal
    to \<open>b\<close>. Nothing happens if no card is watched.
  \<^item> \<open>RetryClicked\<close>, \<open>ClearClicked\<close>: the user clicks \<^verbatim>\<open>Try Again\<close>, or one of the two
    controls bound to \<^verbatim>\<open>clearSearch\<close>, if it is on the screen.

  React renders again after each handler, before the next event is handled: the
  callbacks of the next event close over the state the handler left.
\<close>

definition send_page :: "nat \<Rightarrow> system \<Rightarrow> system" where
  "send_page n sys = sys\<lparr>ui := fetchUsers_begin n (ui sys), page_sent := page_sent sys @ [n]\<rparr>"

fun step :: "event \<Rightarrow> system \<Rightarrow> system" where
  "step (PageResolves i r) sys =
     (if i < length (page_sent sys) \<and> i \<notin> set (page_done sys)
      then sys\<lparr>ui := fetchUsers_resolve (page_sent sys ! i) r (ui sys),
               page_done := i # page_done sys,
               timer := (timer sys \<or> stores_users r)\<rparr>
      else sys)"
| "step (SearchResolves i r) sys =
     (if i < length (search_sent sys) \<and> i \<notin> set (search_done sys)
      then sys\<lparr>ui := searchUsers_resolve (search_sent sys ! i) r (ui sys),
               search_done := i # search_done sys\<rparr>
      else sys)"
| "step (Typed q) sys =
     (if search_input (ui sys) \<and> q \<noteq> searchQuery (ui sys)
      then sys\<lparr>ui := (ui sys)\<lparr>searchQuery := q\<rparr>, timer := True\<rparr>
      else sys)"
| "step TimerFires sys =
     (if timer sys
      then (case debounce_fire (ui sys) of
              (v, None) \<Rightarrow> sys\<lparr>ui := v, timer := False\<rparr>
            | (v, Some req) \<Rightarrow>
                sys\<lparr>ui := v, search_sent := search_sent sys @ [req], timer := False\<rparr>)
      else sys)"
| "step (Intersects isIntersecting) sys =
     (if watcher_armed (ui sys)
      then (case observer_callback isIntersecting (ui sys) of
              None \<Rightarrow> sys
            | Some n \<Rightarrow> send_page n sys)
      else sys)"
| "step RetryClicked sys =
     (if retry_button (ui sys)
      then sys\<lparr>ui := retryFetch (ui sys), page_sent := page_sent sys @ [1]\<rparr>
      else sys)"
| "step ClearClicked sys =
     (if clear_control (ui sys)
      then sys\<lparr>ui := clearSearch (ui sys), timer := True\<rparr>
      else sys)"

fun run :: "event list \<Rightarrow> system \<Rightarrow> system" where
  "run [] sys = sys"
| "run (e # es) sys = run es (step e sys)"

text \<open>The requests that have been sent and have not come back.\<close>

definition pages_in_flight :: "system \<Rightarrow> nat list" where
  "pages_in_flight sys =
     map (\<lambda>i. page_sent sys ! i)
       (filter (\<lambda>i. i \<notin> set (page_done sys)) [0 ..< length (page_sent sys)])"

definition searches_in_flight :: "system \<Rightarrow> search_request list" where
  "searches_in_flight sys =
     map (\<lambda>i. search_sent sys ! i)
       (filter (\<lambda>i. i \<notin> set (search_done sys)) [0 ..< length (search_sent sys)])"

text \<open>The requests sent during a run that starts in \<open>sys\<close>.\<close>

definition pages_sent_by :: "event list \<Rightarrow> system \<Rightarrow> nat list" where
  "pages_sent_by es sys = drop (length (page_sent sys)) (page_sent (run es sys))"

definition searches_sent_by :: "event list \<Rightarrow> system \<Rightarrow> search_request list" where
  "searches_sent_by es sys = drop (length (search_sent sys)) (search_sent (run es sys))"

section \<open>Vocabulary of the properties\<close>

text \<open>
  The body that a page load reads when it comes back: the parsed array of a response
  that passes \<open>check_ok\<close>. Every other event reads none.
\<close>

fun page_body :: "event \<Rightarrow> user list" where
  "page_body (PageResolves i r) = (case check_ok r of Inl err \<Rightarrow> [] | Inr data \<Rightarrow> data)"
| "page_body e = []"

fun is_page_resolution :: "event \<Rightarrow> bool" where
  "is_page_resolution (PageResolves i r) = True"
| "is_page_resolution e = False"

text \<open>Users and responses for the scenarios.\<close>

definition sample_user :: "int \<Rightarrow> user" where
  "sample_user i = \<lparr> user_id = i, login = ''u'', avatar_url = [], html_url = [] \<rparr>"

definition success :: "'a \<Rightarrow> 'a outcome" where
  "success body = Responded True 200 body"

text \<open>The view after its first page has arrived with one user.\<close>

definition loaded :: system where
  "loaded = step (PageResolves 0 (success [sample_user 1])) mount"

text \<open>
  Page 1 comes back with the identifiers 1 to 30; the watched card scrolls into view and
  page 2 is requested; page 2 comes back with the identifiers 25 to 54.
\<close>

definition overlap_scenario :: "event list" where
  "overlap_scenario =
     [PageResolves 0 (success (map sample_user [1..30])),
      Intersects True,
      PageResolves 1 (success (map sample_user [25..54]))]"

text \<open>
  The query \<^verbatim>\<open>torvalds\<close> is typed, the debounce timer fires, and the search comes back
  with one item.
\<close>

definition torvalds :: user where
  "torvalds = \<lparr> user_id = 1024025, login = ''torvalds'', avatar_url = [], html_url = [] \<rparr>"

definition torvalds_scenario :: "event list" where
  "torvalds_scenario =
     [Typed ''torvalds'', TimerFires, SearchResolves 0 (success (Some [torvalds]))]"

text \<open>
  The first page is there, the watched card scrolls into view, and the load of page 2
  comes back with status 403.
\<close>

definition page_two_refused :: system where
  "page_two_refused =
     run [Intersects True, PageResolves 1 (Responded False 403 [])] loaded"

text \<open>
  The first page arrives, the search for \<^verbatim>\<open>torvalds\<close> succeeds, and the user types one
  more letter; the timer fires and a second search is on its way.
\<close>

definition second_search :: "event list" where
  "second_search =
     PageResolves 0 (success [sample_user 1]) # torvalds_scenario @ [Typed ''torvaldz'', TimerFires]"

text \<open>No search request that was sent has a blank query.\<close>

definition queries_not_blank :: "system \<Rightarrow> bool" where
  "queries_not_blank sys = list_all (\<lambda>req. \<not> blank (fst req)) (search_sent sys)"

text \<open>
  Two searches are on their way, for \<^verbatim>\<open>a\<close> and then for \<^verbatim>\<open>ab\<close>; the later one comes
  back first. \<open>older_last\<close> lets the older one come back after it.
\<close>

definition two_searches :: system where
  "two_searches = run [Typed ''a'', TimerFires, Typed ''ab'', TimerFires] loaded"

definition newer_first :: system where
  "newer_first = step (SearchResolves 1 (success (Some [sample_user 2]))) two_searches"

definition older_last :: system where
  "older_last = step (SearchResolves 0 (success (Some [sample_user 1]))) newer_first"

text \<open>The watched card is reported visible twice while nothing has come back.\<close>

definition two_page_loads :: system where
  "two_page_loads = run [Intersects True, Intersects True] loaded"

text \<open>Page numbers start at 1: no request is sent for page 0.\<close>

definition pages_positive :: "system \<Rightarrow> bool" where
  "pages_positive sys = list_all (\<lambda>n. 1 \<le> n) (page_sent sys)"

text \<open>
  The first page arrives and page 2 is requested. \<open>after_exhaustion\<close> is what may follow
  once page 2 has come back empty: the card is visible again, a search fails, the user
  retries, page 1 arrives anew, the search is cleared and the card is visible once more.
\<close>

definition page_two_requested :: "event list" where
  "page_two_requested = [PageResolves 0 (success [sample_user 1]), Intersects True]"

definition after_exhaustion :: "event list" where
  "after_exhaustion =
     [Intersects True, Typed ''x'', TimerFires, SearchResolves 0 (Threw OtherValue),
      RetryClicked, PageResolves 2 (success [sample_user 9]), ClearClicked, Intersects True]"

text \<open>
  The view has not been initialized, no page load is in flight, no search was ever sent
  and the query is blank.
\<close>

definition idle_uninitialized :: "system \<Rightarrow> bool" where
  "idle_uninitialized sys \<longleftrightarrow>
     \<not> isInitialized (ui sys) \<and> pages_in_flight sys = [] \<and> search_sent sys = []
     \<and> blank (searchQuery (ui sys))"

text \<open>What the user and the browser may try on a view that shows the loading screen.\<close>

definition stuck_events :: "event list" where
  "stuck_events = [TimerFires, Intersects True, RetryClicked, Typed ''a'', ClearClicked]"

text \<open>
  With the first page on the screen, page 2 is requested; the user types \<^verbatim>\<open>a\<close> and the
  timer fires; then page 2 arrives with one more user.
\<close>

definition page_lands_in_search :: "event list" where
  "page_lands_in_search =
     [Intersects True, Typed ''a'', TimerFires, PageResolves 1 (success [sample_user 2])]"

section \<open>Basic facts\<close>

declare string_of_nat.simps [simp del]

subsection \<open>The common prefix of the two requests\<close>

lemma check_ok_simps [simp]:
  "check_ok (Threw err) = Inl err"
  "check_ok (Responded False st body) = Inl (http_error st)"
  "check_ok (Responded True st body) = Inr body"
  by (simp_all add: check_ok_def)

subsection \<open>The accumulated listing is written by page loads only\<close>

lemma users_fetchUsers_begin [simp]: "users (fetchUsers_begin n s) = users s"
  by (simp add: fetchUsers_begin_def)

lemma users_searchUsers_resolve [simp]: "users (searchUsers_resolve req r s) = users s"
  by (cases "check_ok r") (simp_all add: searchUsers_resolve_def Let_def)

lemma users_searchUsers_call [simp]: "users (fst (searchUsers_call c q s)) = users s"
  by (simp add: searchUsers_call_def)

lemma users_debounce_fire [simp]: "users (fst (debounce_fire s)) = users s"
  by (simp add: debounce_fire_def)

lemma users_clearSearch [simp]: "users (clearSearch s) = users s"
  by (simp add: clearSearch_def)

lemma users_retryFetch [simp]: "users (retryFetch s) = users s"
  by (simp add: retryFetch_def)

lemma users_step_other:
  "\<not> is_page_resolution e \<Longrightarrow> users (ui (step e sys)) = users (ui sys)"
proof (cases e)
  case TimerFires
  obtain v req where d: "debounce_fire (ui sys) = (v, req)"
    by (cases "debounce_fire (ui sys)")
  then have "users v = users (ui sys)"
    using users_debounce_fire [of "ui sys"] by simp
  with TimerFires d show ?thesis by (cases req) simp_all
qed (simp_all add: send_page_def split: option.splits)

lemma users_run_other:
  "\<forall>e \<in> set es. \<not> is_page_resolution e \<Longrightarrow> users (ui (run es sys)) = users (ui sys)"
  by (induction es arbitrary: sys) (simp_all add: users_step_other)

subsection \<open>Merging a page keeps identifiers apart\<close>

lemma merge_page_distinct:
  assumes "distinct (map user_id prevUsers)" and "distinct (map user_id data)"
  shows "distinct (map user_id (merge_page prevUsers data))"
proof -
  let ?new = "filter (\<lambda>u. user_id u \<notin> set (map user_id prevUsers)) data"
  have "distinct (map user_id ?new)"
    using assms(2) by (rule distinct_map_filter)
  moreover have "set (map user_id prevUsers) \<inter> set (map user_id ?new) = {}"
    by (fastforce simp: image_iff)
  ultimately show ?thesis
    using assms(1) by (simp add: merge_page_def)
qed

lemma fetchUsers_resolve_distinct:
  assumes "distinct (map user_id (users s))"
    and "distinct (map user_id (page_body (PageResolves i r)))"
  shows "distinct (map user_id (users (fetchUsers_resolve n r s)))"
proof (cases "check_ok r")
  case (Inl err)
  then show ?thesis using assms by (simp add: fetchUsers_resolve_def)
next
  case (Inr data)
  then show ?thesis using assms
    by (auto simp: fetchUsers_resolve_def Let_def intro: merge_page_distinct)
qed

lemma step_distinct:
  assumes "distinct (map user_id (users (ui sys)))"
    and "distinct (map user_id (page_body e))"
  shows "distinct (map user_id (users (ui (step e sys))))"
proof (cases "is_page_resolution e")
  case False
  then show ?thesis using assms(1) by (simp add: users_step_other)
next
  case True
  then obtain i r where "e = PageResolves i r" by (cases e) simp_all
  then show ?thesis
    using assms fetchUsers_resolve_distinct [of "ui sys" i r] by simp
qed

lemma run_distinct:
  "distinct (map user_id (users (ui sys))) \<Longrightarrow>
   \<forall>e \<in> set es. distinct (map user_id (page_body e)) \<Longrightarrow>
   distinct (map user_id (users (ui (run es sys))))"
  by (induction es arbitrary: sys) (simp_all add: step_distinct)

lemma users_mount: "users (ui mount) = []"
  by (simp add: mount_def initial_def)

subsection \<open>What a response does to the state\<close>

lemma fetchUsers_resolve_failure:
  assumes "check_ok r = Inl err"
  shows "fetchUsers_resolve n r s =
           s\<lparr>error := Some (catch_message ''Failed to fetch users'' err), loading := False\<rparr>"
  using assms by (simp add: fetchUsers_resolve_def)

lemma fetchUsers_resolve_success:
  "data \<noteq> [] \<Longrightarrow> fetchUsers_resolve n (Responded True st data) s =
     (if n = 1
      then s\<lparr>users := data, filteredUsers := data, isInitialized := True, page := n,
             loading := False\<rparr>
      else s\<lparr>users := merge_page (users s) data,
             filteredUsers := merge_page (users s) data, page := n, loading := False\<rparr>)"
  by (simp add: fetchUsers_resolve_def Let_def)

lemma searchUsers_resolve_failure:
  assumes "check_ok r = Inl err"
  shows "searchUsers_resolve req r s =
     (if blank (fst req)
      then s\<lparr>error := Some (catch_message ''Failed to search users'' err), searchResults := [],
             filteredUsers := snd req, isSearching := False\<rparr>
      else s\<lparr>error := Some (catch_message ''Failed to search users'' err), searchResults := [],
             isSearching := False\<rparr>)"
  using assms by (simp add: searchUsers_resolve_def Let_def)

lemma searchUsers_resolve_success:
  "searchUsers_resolve req (Responded True st body) s =
     s\<lparr>searchResults := (case body of None \<Rightarrow> [] | Some items \<Rightarrow> items),
       filteredUsers := (case body of None \<Rightarrow> [] | Some items \<Rightarrow> items),
       isSearching := False\<rparr>"
  by (simp add: searchUsers_resolve_def Let_def)

subsection \<open>Retry\<close>

lemma retryFetch_eq: "retryFetch s = s\<lparr>error := None, loading := True\<rparr>"
  by (simp add: retryFetch_def fetchUsers_begin_def)

lemma pages_sent_by_retry:
  "retry_button (ui sys) \<Longrightarrow> pages_sent_by [RetryClicked] sys = [1]"
  by (simp add: pages_sent_by_def)

subsection \<open>Runs\<close>

lemma run_invariant:
  assumes "P sys" and "\<And>e s. P s \<Longrightarrow> P (step e s)"
  shows "P (run es sys)"
  using assms(1) by (induction es arbitrary: sys) (simp_all add: assms(2))

lemma run_append: "run (es @ es') sys = run es' (run es sys)"
  by (induction es arbitrary: sys) simp_all

subsection \<open>Search requests carry a query that is not blank\<close>

lemma debounce_fire_request:
  "debounce_fire s = (v, Some req) \<Longrightarrow> req = (searchQuery s, users s) \<and> \<not> blank (searchQuery s)"
  by (auto simp: debounce_fire_def searchUsers_call_def split: if_splits)

lemma search_sent_step:
  "search_sent (step e sys) = search_sent sys \<or>
   (\<exists>req. search_sent (step e sys) = search_sent sys @ [req] \<and> \<not> blank (fst req))"
proof (cases e)
  case TimerFires
  show ?thesis
  proof (cases "debounce_fire (ui sys)")
    case (Pair v req)
    with TimerFires show ?thesis
      by (cases req) (auto dest: debounce_fire_request)
  qed
qed (simp_all add: send_page_def split: option.splits)

lemma queries_not_blank_step: "queries_not_blank sys \<Longrightarrow> queries_not_blank (step e sys)"
  using search_sent_step [of e sys] by (auto simp: queries_not_blank_def)

lemma queries_not_blank_run: "queries_not_blank (run es mount)"
  by (rule run_invariant) (simp_all add: queries_not_blank_def mount_def queries_not_blank_step [unfolded queries_not_blank_def])

subsection \<open>The loading flag and the watcher\<close>

lemma loading_fetchUsers_begin: "loading (fetchUsers_begin n s) = (n = 1 \<or> loading s)"
  by (simp add: fetchUsers_begin_def)

lemma loading_fetchUsers_resolve: "\<not> loading (fetchUsers_resolve n r s)"
  by (simp add: fetchUsers_resolve_def Let_def)

lemma watcher_armed_iff:
  "watcher_armed s \<longleftrightarrow>
     isInitialized s \<and> filteredUsers s \<noteq> [] \<and> searchQuery s = [] \<and> \<not> loading s"
  by (auto simp: watcher_armed_def render_def lastUserRef_arms_def truthy_def blank_def trim_def)

lemma pages_sent_by_intersects:
  "pages_sent_by [Intersects v] sys =
     (if watcher_armed (ui sys) \<and> v \<and> hasMore (ui sys) then [page (ui sys) + 1] else [])"
  by (simp add: pages_sent_by_def observer_callback_def send_page_def)

subsection \<open>Typing and the debounce timer\<close>

lemma search_input_iff: "search_input s \<longleftrightarrow> isInitialized s"
  by (simp add: search_input_def render_def)

lemma step_Typed_new:
  "search_input (ui sys) \<Longrightarrow> q \<noteq> searchQuery (ui sys) \<Longrightarrow>
   step (Typed q) sys = sys\<lparr>ui := (ui sys)\<lparr>searchQuery := q\<rparr>, timer := True\<rparr>"
  by simp

lemma run_burst:
  "search_input (ui sys) \<Longrightarrow> qs \<noteq> [] \<Longrightarrow> distinct_adj (searchQuery (ui sys) # qs) \<Longrightarrow>
   run (map Typed qs) sys = sys\<lparr>ui := (ui sys)\<lparr>searchQuery := last qs\<rparr>, timer := True\<rparr>"
proof (induction qs arbitrary: sys)
  case Nil
  then show ?case by simp
next
  case (Cons q qs)
  let ?sys1 = "sys\<lparr>ui := (ui sys)\<lparr>searchQuery := q\<rparr>, timer := True\<rparr>"
  from Cons.prems have q: "q \<noteq> searchQuery (ui sys)" by auto
  with Cons.prems(1) have s: "step (Typed q) sys = ?sys1" by simp
  show ?case
  proof (cases "qs = []")
    case True
    with s show ?thesis by simp
  next
    case False
    have si: "search_input (ui ?sys1)"
      using Cons.prems(1) by (simp add: search_input_iff)
    have da: "distinct_adj (searchQuery (ui ?sys1) # qs)"
      using Cons.prems(3) by simp
    have "run (map Typed qs) ?sys1
        = ?sys1\<lparr>ui := (ui ?sys1)\<lparr>searchQuery := last qs\<rparr>, timer := True\<rparr>"
      using si False da by (rule Cons.IH)
    with s False show ?thesis by simp
  qed
qed

lemma step_TimerFires_pending:
  "timer sys \<Longrightarrow> search_sent (step TimerFires sys) =
     search_sent sys @ (if blank (searchQuery (ui sys)) then []
                        else [(searchQuery (ui sys), users (ui sys))])"
  by (simp add: debounce_fire_def searchUsers_call_def)

lemma timer_step_TimerFires: "\<not> timer (step TimerFires sys)"
  by (simp split: prod.splits option.splits)

subsection \<open>The exhausted flag is never set again\<close>

lemma hasMore_fetchUsers_begin [simp]: "hasMore (fetchUsers_begin n s) = hasMore s"
  by (simp add: fetchUsers_begin_def)

lemma hasMore_fetchUsers_resolve:
  "hasMore (fetchUsers_resolve n r s) = (hasMore s \<and> check_ok r \<noteq> Inr [])"
  by (cases "check_ok r") (auto simp: fetchUsers_resolve_def Let_def)

lemma hasMore_searchUsers_resolve [simp]: "hasMore (searchUsers_resolve req r s) = hasMore s"
  by (cases "check_ok r") (simp_all add: searchUsers_resolve_def Let_def)

lemma hasMore_debounce_fire [simp]: "hasMore (fst (debounce_fire s)) = hasMore s"
  by (simp add: debounce_fire_def searchUsers_call_def)

lemma hasMore_clearSearch [simp]: "hasMore (clearSearch s) = hasMore s"
  by (simp add: clearSearch_def)

lemma hasMore_retryFetch [simp]: "hasMore (retryFetch s) = hasMore s"
  by (simp add: retryFetch_eq)

lemma hasMore_step: "hasMore (ui (step e sys)) \<Longrightarrow> hasMore (ui sys)"
proof (cases e)
  case TimerFires
  assume a: "hasMore (ui (step e sys))"
  obtain v req where d: "debounce_fire (ui sys) = (v, req)"
    by (cases "debounce_fire (ui sys)")
  then have "hasMore v = hasMore (ui sys)"
    using hasMore_debounce_fire [of "ui sys"] by simp
  with TimerFires d a show ?thesis
    by (cases req) (simp_all split: if_splits)
qed (simp_all add: send_page_def hasMore_fetchUsers_resolve split: if_splits option.splits)

lemma page_sent_step:
  "page_sent (step e sys) =
     page_sent sys @
       (case e of
          Intersects v \<Rightarrow> if watcher_armed (ui sys) \<and> v \<and> hasMore (ui sys)
                          then [page (ui sys) + 1] else []
        | RetryClicked \<Rightarrow> if retry_button (ui sys) then [1] else []
        | _ \<Rightarrow> [])"
  by (cases e) (simp_all add: send_page_def observer_callback_def split: prod.splits option.splits)

lemma page_sent_step_exhausted:
  assumes "\<not> hasMore (ui sys)"
  shows "\<exists>ns. page_sent (step e sys) = page_sent sys @ ns \<and> set ns \<subseteq> {1}"
  using assms unfolding page_sent_step by (cases e) auto

lemma run_exhausted:
  assumes "\<not> hasMore (ui sys)"
  shows "\<not> hasMore (ui (run es sys)) \<and>
         (\<exists>ns. page_sent (run es sys) = page_sent sys @ ns \<and> set ns \<subseteq> {1})"
proof (rule run_invariant [where P = "\<lambda>s. \<not> hasMore (ui s) \<and>
         (\<exists>ns. page_sent s = page_sent sys @ ns \<and> set ns \<subseteq> {1})"])
  show "\<not> hasMore (ui sys) \<and> (\<exists>ns. page_sent sys = page_sent sys @ ns \<and> set ns \<subseteq> {1})"
    using assms by simp
next
  fix e and s :: system
  assume p: "\<not> hasMore (ui s) \<and> (\<exists>ns. page_sent s = page_sent sys @ ns \<and> set ns \<subseteq> {1})"
  then obtain ns where ns: "page_sent s = page_sent sys @ ns" "set ns \<subseteq> {1}"
    by blast
  from p obtain ms where ms: "page_sent (step e s) = page_sent s @ ms" "set ms \<subseteq> {1}"
    using page_sent_step_exhausted [of s e] by blast
  from ns ms have "page_sent (step e s) = page_sent sys @ (ns @ ms) \<and> set (ns @ ms) \<subseteq> {1}"
    by simp
  moreover from p have "\<not> hasMore (ui (step e s))"
    using hasMore_step [of e s] by blast
  ultimately show "\<not> hasMore (ui (step e s)) \<and>
      (\<exists>ns. page_sent (step e s) = page_sent sys @ ns \<and> set ns \<subseteq> {1})"
    by blast
qed

lemma pages_sent_by_exhausted:
  "\<not> hasMore (ui sys) \<Longrightarrow> set (pages_sent_by es sys) \<subseteq> {1}"
  using run_exhausted [of sys es] by (auto simp: pages_sent_by_def)

lemma pages_positive_step: "pages_positive sys \<Longrightarrow> pages_positive (step e sys)"
  unfolding pages_positive_def page_sent_step by (cases e) simp_all

lemma pages_positive_run: "pages_positive (run es mount)"
  by (rule run_invariant) (simp_all add: pages_positive_step, simp add: pages_positive_def mount_def)


lemma exhausting_resolution:
  "i < length (page_sent sys) \<Longrightarrow> i \<notin> set (page_done sys) \<Longrightarrow>
   \<not> hasMore (ui (step (PageResolves i (Responded True st [])) sys))"
  by (simp add: hasMore_fetchUsers_resolve)

subsection \<open>The initialized flag\<close>

lemma isInitialized_fetchUsers_begin [simp]:
  "isInitialized (fetchUsers_begin n s) = isInitialized s"
  by (simp add: fetchUsers_begin_def)

lemma isInitialized_fetchUsers_resolve:
  "isInitialized (fetchUsers_resolve n r s) = (isInitialized s \<or> (n = 1 \<and> stores_users r))"
  by (cases "check_ok r") (auto simp: fetchUsers_resolve_def Let_def stores_users_def)

lemma isInitialized_searchUsers_resolve [simp]:
  "isInitialized (searchUsers_resolve req r s) = isInitialized s"
  by (cases "check_ok r") (simp_all add: searchUsers_resolve_def Let_def)

lemma isInitialized_debounce_fire [simp]:
  "isInitialized (fst (debounce_fire s)) = isInitialized s"
  by (simp add: debounce_fire_def searchUsers_call_def)

lemma isInitialized_clearSearch [simp]: "isInitialized (clearSearch s) = isInitialized s"
  by (simp add: clearSearch_def)

lemma isInitialized_retryFetch [simp]: "isInitialized (retryFetch s) = isInitialized s"
  by (simp add: retryFetch_eq)

lemma stores_users_iff: "stores_users r \<longleftrightarrow> (\<exists>st data. r = Responded True st data \<and> data \<noteq> [])"
  by (cases r) (auto simp: stores_users_def check_ok_def)

lemma isInitialized_step:
  assumes "isInitialized (ui (step e sys))" and "\<not> isInitialized (ui sys)"
  shows "\<exists>i r. e = PageResolves i r \<and> stores_users r \<and> i < length (page_sent sys)
           \<and> i \<notin> set (page_done sys) \<and> page_sent sys ! i = 1"
proof (cases e)
  case (PageResolves i r)
  with assms show ?thesis
    by (auto simp: isInitialized_fetchUsers_resolve split: if_splits)
next
  case TimerFires
  obtain v req where d: "debounce_fire (ui sys) = (v, req)"
    by (cases "debounce_fire (ui sys)")
  then have "isInitialized v = isInitialized (ui sys)"
    using isInitialized_debounce_fire [of "ui sys"] by simp
  with TimerFires d assms show ?thesis
    by (cases req) (simp_all split: if_splits)
qed (use assms in \<open>simp_all add: send_page_def split: if_splits option.splits\<close>)

lemma render_uninitialized: "\<not> isInitialized s \<Longrightarrow> render s = LoadingScreen"
  by (simp add: render_def)

lemma pages_in_flight_Nil: "pages_in_flight sys = [] \<longleftrightarrow> (\<forall>i < length (page_sent sys). i \<in> set (page_done sys))"
  by (auto simp: pages_in_flight_def filter_empty_conv)

lemma idle_uninitialized_step:
  assumes "idle_uninitialized sys"
  shows "idle_uninitialized (step e sys) \<and> page_sent (step e sys) = page_sent sys"
proof (cases e)
  case (PageResolves i r)
  with assms show ?thesis
    by (auto simp: idle_uninitialized_def pages_in_flight_Nil)
next
  case (SearchResolves i r)
  with assms show ?thesis
    by (simp add: idle_uninitialized_def)
next
  case (Typed q)
  with assms show ?thesis
    by (simp add: idle_uninitialized_def search_input_iff)
next
  case TimerFires
  from assms have "debounce_fire (ui sys) =
      ((ui sys)\<lparr>isSearching := False, searchResults := [], filteredUsers := users (ui sys)\<rparr>, None)"
    by (simp add: idle_uninitialized_def debounce_fire_def)
  with TimerFires assms show ?thesis
    by (simp add: idle_uninitialized_def pages_in_flight_def)
next
  case (Intersects v)
  with assms show ?thesis
    by (simp add: idle_uninitialized_def watcher_armed_iff)
next
  case RetryClicked
  with assms show ?thesis
    by (simp add: idle_uninitialized_def retry_button_def render_def)
next
  case ClearClicked
  with assms show ?thesis
    by (simp add: idle_uninitialized_def clear_control_def render_def)
qed

lemma idle_uninitialized_run:
  assumes "idle_uninitialized sys"
  shows "idle_uninitialized (run es sys) \<and> page_sent (run es sys) = page_sent sys"
  by (rule run_invariant [where P = "\<lambda>s. idle_uninitialized s \<and> page_sent s = page_sent sys"])
     (use assms idle_uninitialized_step in auto)

lemma first_load_without_users:
  "\<not> stores_users r \<Longrightarrow> idle_uninitialized (step (PageResolves 0 r) mount)"
  by (auto simp: idle_uninitialized_def mount_def pages_in_flight_def initial_def
      stores_users_def blank_def trim_def fetchUsers_begin_def
      fetchUsers_resolve_def Let_def split: sum.splits)

lemma stuck_on_loading_screen:
  assumes "\<not> stores_users r"
  shows "render (ui (run es (step (PageResolves 0 r) mount))) = LoadingScreen"
    and "pages_sent_by es (step (PageResolves 0 r) mount) = []"
proof -
  have "idle_uninitialized (step (PageResolves 0 r) mount)"
    using assms by (rule first_load_without_users)
  then have i: "idle_uninitialized (run es (step (PageResolves 0 r) mount))
      \<and> page_sent (run es (step (PageResolves 0 r) mount)) = page_sent (step (PageResolves 0 r) mount)"
    by (rule idle_uninitialized_run)
  then show "render (ui (run es (step (PageResolves 0 r) mount))) = LoadingScreen"
    by (simp add: idle_uninitialized_def render_uninitialized)
  from i show "pages_sent_by es (step (PageResolves 0 r) mount) = []"
    by (simp add: pages_sent_by_def)
qed

subsection \<open>Clearing the query\<close>

lemma step_ClearClicked:
  "clear_control (ui sys) \<Longrightarrow>
   step ClearClicked sys = sys\<lparr>ui := clearSearch (ui sys), timer := True\<rparr>"
  by simp

lemma run_clear_by_typing:
  assumes "blank q" and "search_input (ui sys)" and "q \<noteq> searchQuery (ui sys)"
  shows "run [Typed q, TimerFires] sys =
     sys\<lparr>ui := (ui sys)\<lparr>searchQuery := q, isSearching := False, searchResults := [],
                        filteredUsers := users (ui sys)\<rparr>,
         timer := False\<rparr>"
  using assms by (simp add: debounce_fire_def)

section \<open>C1: the accumulated listing holds no identifier twice\<close>

text \<open>
  C1, as the code has it. Take any run of the view from its mount in which no single
  page body that is stored repeats an identifier: page loads may come back in any
  order and overlap each other as they like, and any other events may lie in between.
  Then the accumulated listing never holds two entries with the same identifier. In
  the scenario of the specification (page 1 brings the identifiers 1 to 30, page 2 the
  identifiers 25 to 54) the listing is 1 to 54 in order, 54 entries.
\<close>

theorem listing_has_no_duplicates:
  "(\<forall>es. (\<forall>e \<in> set es. distinct (map user_id (page_body e))) \<longrightarrow>
         distinct (map user_id (users (ui (run es mount)))))
   \<and> map user_id (users (ui (run overlap_scenario mount))) = [1..54]
   \<and> length (users (ui (run overlap_scenario mount))) = 54"
proof (intro conjI allI impI)
  fix es
  assume "\<forall>e \<in> set es. distinct (map user_id (page_body e))"
  then show "distinct (map user_id (users (ui (run es mount))))"
    by (simp add: run_distinct users_mount)
next
  show ids: "map user_id (users (ui (run overlap_scenario mount))) = [1..54]"
    by code_simp
  have "length (map user_id (users (ui (run overlap_scenario mount)))) = 54"
    unfolding ids by simp
  then show "length (users (ui (run overlap_scenario mount))) = 54"
    by simp
qed

theorem listing_has_no_duplicates_witness:
  "list_all (\<lambda>e. distinct (map user_id (page_body e))) overlap_scenario
   \<and> distinct (map user_id (users (ui (run overlap_scenario mount))))"
proof -
  have h: "list_all (\<lambda>e. distinct (map user_id (page_body e))) overlap_scenario"
    by code_simp
  then have "\<forall>e \<in> set overlap_scenario. distinct (map user_id (page_body e))"
    by (simp add: list_all_iff)
  with h listing_has_no_duplicates show ?thesis by blast
qed

text \<open>
  The claim as the specification words it speaks of every sequence of successful page
  loads. A page is filtered against the listing only, not against itself: a first page
  that names the identifier 7 twice is stored as it is.
\<close>

theorem listing_duplicates_counterexample:
  "\<not> distinct (map user_id (users (ui (run
       [PageResolves 0 (success [sample_user 7, sample_user 7])] mount))))"
  by code_simp

section \<open>C2: responses that arrive out of order\<close>

text \<open>
  C2, as the code has it. A response is applied when it arrives; nothing records which
  request was sent last, and no request is cancelled. So when request A is sent before
  request B and B comes back first, a later successful answer to A still takes effect:
  for a search, the search result set and the display source become the items of A; for
  a page load with a non-empty body, the listing is replaced by the body of A when A
  asked for page 1, and otherwise the body of A is merged into the listing that B left;
  the current page becomes the page of A. The request that comes back last is the one
  whose results stand.
\<close>

theorem last_resolution_wins:
  "(\<forall>sys i j rB st body.
      i < j \<longrightarrow> j < length (search_sent sys) \<longrightarrow>
      i \<notin> set (search_done sys) \<longrightarrow> j \<notin> set (search_done sys) \<longrightarrow>
        searchResults (ui (run [SearchResolves j rB, SearchResolves i (Responded True st body)] sys))
          = (case body of None \<Rightarrow> [] | Some items \<Rightarrow> items)
      \<and> filteredUsers (ui (run [SearchResolves j rB, SearchResolves i (Responded True st body)] sys))
          = (case body of None \<Rightarrow> [] | Some items \<Rightarrow> items))
   \<and> (\<forall>sys i j rB st data.
      i < j \<longrightarrow> j < length (page_sent sys) \<longrightarrow>
      i \<notin> set (page_done sys) \<longrightarrow> j \<notin> set (page_done sys) \<longrightarrow> data \<noteq> [] \<longrightarrow>
        users (ui (run [PageResolves j rB, PageResolves i (Responded True st data)] sys))
          = (if page_sent sys ! i = 1 then data
             else merge_page (users (ui (step (PageResolves j rB) sys))) data)
      \<and> page (ui (run [PageResolves j rB, PageResolves i (Responded True st data)] sys))
          = page_sent sys ! i)"
proof (intro conjI allI impI)
  fix sys :: system and i j :: nat and rB :: "user list option outcome" and st
    and body :: "user list option"
  assume h: "i < j" "j < length (search_sent sys)" "i \<notin> set (search_done sys)"
    "j \<notin> set (search_done sys)"
  let ?r = "run [SearchResolves j rB, SearchResolves i (Responded True st body)] sys"
  from h have r: "ui ?r = searchUsers_resolve (search_sent sys ! i) (Responded True st body)
      (ui (step (SearchResolves j rB) sys))"
    by simp
  show "searchResults (ui ?r) = (case body of None \<Rightarrow> [] | Some items \<Rightarrow> items)"
    unfolding r by (simp add: searchUsers_resolve_success)
  show "filteredUsers (ui ?r) = (case body of None \<Rightarrow> [] | Some items \<Rightarrow> items)"
    unfolding r by (simp add: searchUsers_resolve_success)
next
  fix sys :: system and i j :: nat and rB :: "user list outcome" and st
    and data :: "user list"
  assume h: "i < j" "j < length (page_sent sys)" "i \<notin> set (page_done sys)"
    "j \<notin> set (page_done sys)" and d: "data \<noteq> []"
  let ?r = "run [PageResolves j rB, PageResolves i (Responded True st data)] sys"
  from h have r: "ui ?r = fetchUsers_resolve (page_sent sys ! i) (Responded True st data)
      (ui (step (PageResolves j rB) sys))"
    by simp
  show "users (ui ?r) = (if page_sent sys ! i = 1 then data
             else merge_page (users (ui (step (PageResolves j rB) sys))) data)"
    unfolding r by (simp add: fetchUsers_resolve_success [OF d])
  show "page (ui ?r) = page_sent sys ! i"
    unfolding r by (simp add: fetchUsers_resolve_success [OF d])
qed

theorem last_resolution_wins_witness:
  "(0::nat) < 1 \<and> 1 < length (search_sent two_searches)
   \<and> 0 \<notin> set (search_done two_searches) \<and> 1 \<notin> set (search_done two_searches)
   \<and> filteredUsers (ui (run [SearchResolves 1 (success (Some [sample_user 2])),
         SearchResolves 0 (Responded True 200 (Some [sample_user 1]))] two_searches))
       = [sample_user 1]
   \<and> (1::nat) < 2 \<and> 2 < length (page_sent two_page_loads)
   \<and> 1 \<notin> set (page_done two_page_loads) \<and> 2 \<notin> set (page_done two_page_loads)
   \<and> [sample_user 2] \<noteq> []
   \<and> page_sent two_page_loads ! 1 = 2
   \<and> users (ui (run [PageResolves 2 (success [sample_user 3]),
         PageResolves 1 (Responded True 200 [sample_user 2])] two_page_loads))
       = [sample_user 1, sample_user 3, sample_user 2]"
proof -
  have a: "(0::nat) < 1" "1 < length (search_sent two_searches)"
    "0 \<notin> set (search_done two_searches)" "1 \<notin> set (search_done two_searches)"
    by code_simp+
  have b: "(1::nat) < 2" "2 < length (page_sent two_page_loads)"
    "1 \<notin> set (page_done two_page_loads)" "2 \<notin> set (page_done two_page_loads)"
    "[sample_user 2] \<noteq> []"
    by code_simp+
  have c: "page_sent two_page_loads ! 1 = 2"
    by code_simp
  have d: "merge_page (users (ui (step (PageResolves 2 (success [sample_user 3])) two_page_loads)))
      [sample_user 2] = [sample_user 1, sample_user 3, sample_user 2]"
    by code_simp
  note s = last_resolution_wins [THEN conjunct1, rule_format, OF a,
      of "success (Some [sample_user 2])" 200 "Some [sample_user 1]"]
  note p = last_resolution_wins [THEN conjunct2, rule_format, OF b,
      of "success [sample_user 3]" 200]
  from a b c d s p show ?thesis
    by simp
qed
text \<open>
  The claim as the specification words it asks that the late answer to A leaves the
  state of B alone. The searches for \<^verbatim>\<open>a\<close> and \<^verbatim>\<open>ab\<close> are both on their way; the answer
  for \<^verbatim>\<open>ab\<close> arrives and is shown; then the answer for \<^verbatim>\<open>a\<close> arrives and replaces it,
  while the query still reads \<^verbatim>\<open>ab\<close>.
\<close>

theorem stale_response_counterexample:
  "map fst (searches_in_flight two_searches) = [''a'', ''ab'']
   \<and> searchQuery (ui newer_first) = ''ab''
   \<and> filteredUsers (ui newer_first) = [sample_user 2]
   \<and> searchQuery (ui older_last) = ''ab''
   \<and> filteredUsers (ui older_last) = [sample_user 1]
   \<and> searchResults (ui older_last) = [sample_user 1]
   \<and> filteredUsers (ui older_last) \<noteq> filteredUsers (ui newer_first)"
  by code_simp

section \<open>C3: an empty page ends the paging\<close>

text \<open>
  C3. Take any run of the view from its mount and any page load in flight at its end,
  for page \<open>n\<close>. If that load comes back \<^verbatim>\<open>ok\<close> with an empty body, the listing is marked
  exhausted (\<^verbatim>\<open>hasMore\<close> is unset), it stays so whatever happens afterwards, and every page
  request sent afterwards is for page 1 (a retry), hence for a page below \<open>n + 1\<close>:
  no request for page \<open>n + 1\<close> or a later page is sent again.
\<close>

theorem exhausted_stops_paging:
  "\<forall>es i st es'. i < length (page_sent (run es mount)) \<longrightarrow>
      i \<notin> set (page_done (run es mount)) \<longrightarrow>
        \<not> hasMore (ui (step (PageResolves i (Responded True st [])) (run es mount)))
      \<and> \<not> hasMore (ui (run es' (step (PageResolves i (Responded True st [])) (run es mount))))
      \<and> (\<forall>m \<in> set (pages_sent_by es'
                 (step (PageResolves i (Responded True st [])) (run es mount))).
            m = 1 \<and> m < page_sent (run es mount) ! i + 1)"
proof (intro allI impI)
  fix es i st es'
  let ?sys = "run es mount"
  let ?ex = "step (PageResolves i (Responded True st [])) ?sys"
  assume i: "i < length (page_sent ?sys)" and d: "i \<notin> set (page_done ?sys)"
  have x: "\<not> hasMore (ui ?ex)"
    using i d by (rule exhausting_resolution)
  have "pages_positive ?sys"
    by (rule pages_positive_run)
  with i have n: "1 \<le> page_sent ?sys ! i"
    by (simp add: pages_positive_def list_all_length)
  have "set (pages_sent_by es' ?ex) \<subseteq> {1}"
    using x by (rule pages_sent_by_exhausted)
  with n have "\<forall>m \<in> set (pages_sent_by es' ?ex). m = 1 \<and> m < page_sent ?sys ! i + 1"
    by auto
  moreover have "\<not> hasMore (ui (run es' ?ex))"
    using run_exhausted [OF x] by blast
  ultimately show "\<not> hasMore (ui ?ex) \<and> \<not> hasMore (ui (run es' ?ex)) \<and>
      (\<forall>m \<in> set (pages_sent_by es' ?ex). m = 1 \<and> m < page_sent ?sys ! i + 1)"
    using x by blast
qed

theorem exhausted_stops_paging_witness:
  "1 < length (page_sent (run page_two_requested mount))
   \<and> 1 \<notin> set (page_done (run page_two_requested mount))
   \<and> page_sent (run page_two_requested mount) ! 1 = 2
   \<and> \<not> hasMore (ui (step (PageResolves 1 (Responded True 200 []))
         (run page_two_requested mount)))
   \<and> pages_sent_by after_exhaustion
         (step (PageResolves 1 (Responded True 200 [])) (run page_two_requested mount)) = [1]
   \<and> list_all (\<lambda>m. m = 1 \<and> m < page_sent (run page_two_requested mount) ! 1 + 1)
         (pages_sent_by after_exhaustion
            (step (PageResolves 1 (Responded True 200 [])) (run page_two_requested mount)))"
proof -
  have a: "1 < length (page_sent (run page_two_requested mount))"
    "1 \<notin> set (page_done (run page_two_requested mount))"
    by code_simp+
  have b: "page_sent (run page_two_requested mount) ! 1 = 2"
    by code_simp
  have c: "pages_sent_by after_exhaustion
         (step (PageResolves 1 (Responded True 200 [])) (run page_two_requested mount)) = [1]"
    by code_simp
  note t = exhausted_stops_paging [rule_format, OF a, of 200 after_exhaustion]
  from t [THEN conjunct2, THEN conjunct2]
  have "list_all (\<lambda>m. m = 1 \<and> m < page_sent (run page_two_requested mount) ! 1 + 1)
         (pages_sent_by after_exhaustion
            (step (PageResolves 1 (Responded True 200 [])) (run page_two_requested mount)))"
    by (simp only: list_all_iff)
  with a b c t show ?thesis
    by (simp only: simp_thms)
qed

section \<open>C4: when the watcher asks for the next page\<close>

text \<open>
  C4, as the code has it. The observer asks for a page only when the watched card is
  reported visible, the listing is not exhausted, the query is the empty string and the
  loading flag is unset (and a card is on the screen to be watched); the page it asks
  for is the current page plus one; under those conditions a visible card does send the
  request. The loading flag is raised only when a load of page 1 starts, and lowered
  whenever any load comes back: it does not say whether a page load is in flight.
\<close>

theorem trigger_conditions:
  "(\<forall>v sys. pages_sent_by [Intersects v] sys \<noteq> [] \<longrightarrow>
       v \<and> hasMore (ui sys) \<and> searchQuery (ui sys) = [] \<and> \<not> loading (ui sys)
     \<and> isInitialized (ui sys) \<and> filteredUsers (ui sys) \<noteq> []
     \<and> pages_sent_by [Intersects v] sys = [page (ui sys) + 1])
   \<and> (\<forall>sys. hasMore (ui sys) \<longrightarrow> searchQuery (ui sys) = [] \<longrightarrow> \<not> loading (ui sys) \<longrightarrow>
         isInitialized (ui sys) \<longrightarrow> filteredUsers (ui sys) \<noteq> [] \<longrightarrow>
         pages_sent_by [Intersects True] sys = [page (ui sys) + 1])
   \<and> (\<forall>n s. loading (fetchUsers_begin n s) = (n = 1 \<or> loading s))
   \<and> (\<forall>n r s. \<not> loading (fetchUsers_resolve n r s))"
proof (intro conjI allI impI)
  fix v and sys :: system
  assume a: "pages_sent_by [Intersects v] sys \<noteq> []"
  then have w: "watcher_armed (ui sys) \<and> v \<and> hasMore (ui sys)"
    by (simp add: pages_sent_by_intersects split: if_splits)
  then show "v" "hasMore (ui sys)" "searchQuery (ui sys) = []" "\<not> loading (ui sys)"
    "isInitialized (ui sys)" "filteredUsers (ui sys) \<noteq> []"
    by (simp_all add: watcher_armed_iff)
  from w show "pages_sent_by [Intersects v] sys = [page (ui sys) + 1]"
    by (simp add: pages_sent_by_intersects)
next
  fix sys :: system
  assume "hasMore (ui sys)" "searchQuery (ui sys) = []" "\<not> loading (ui sys)"
    "isInitialized (ui sys)" "filteredUsers (ui sys) \<noteq> []"
  then show "pages_sent_by [Intersects True] sys = [page (ui sys) + 1]"
    by (simp add: pages_sent_by_intersects watcher_armed_iff)
qed (simp_all add: loading_fetchUsers_begin loading_fetchUsers_resolve)

theorem trigger_conditions_witness:
  "pages_sent_by [Intersects True] loaded \<noteq> []
   \<and> hasMore (ui loaded) \<and> searchQuery (ui loaded) = [] \<and> \<not> loading (ui loaded)
   \<and> isInitialized (ui loaded) \<and> filteredUsers (ui loaded) \<noteq> []
   \<and> page (ui loaded) = 1
   \<and> pages_sent_by [Intersects True] loaded = [2]"
proof -
  have a: "pages_sent_by [Intersects True] loaded \<noteq> []"
    by code_simp
  have p: "page (ui loaded) = 1"
    by code_simp
  note t = trigger_conditions [THEN conjunct1, rule_format, OF a]
  note u = trigger_conditions [THEN conjunct2, THEN conjunct1, rule_format, of loaded]
  from a p t u show ?thesis
    by simp
qed

text \<open>
  The claim as the specification words it also asks that no page load be in flight when
  the observer fires, and that at most one ever is. With the first page on the screen
  the card is reported visible: page 2 is requested, and the loading flag stays unset.
  The card is reported visible again before the answer arrives: page 2 is requested once
  more, and two page loads are in flight.
\<close>

theorem trigger_conditions_counterexample:
  "pages_in_flight (run [Intersects True] loaded) = [2]
   \<and> \<not> loading (ui (run [Intersects True] loaded))
   \<and> pages_sent_by [Intersects True] (run [Intersects True] loaded) = [2]
   \<and> pages_in_flight (run [Intersects True, Intersects True] loaded) = [2, 2]"
  by code_simp

section \<open>C5: a failed page load\<close>

text \<open>
  C5. A page load fails when something is thrown before the body is at hand or when the
  response is not \<^verbatim>\<open>ok\<close>. The \<^verbatim>\<open>catch\<close> block then stores a message: the message of the
  \<^verbatim>\<open>Error\<close> that was thrown, which for a refused response reads
  \<^verbatim>\<open>HTTP error! status: \<close> followed by the status code, or \<^verbatim>\<open>Failed to fetch users\<close>
  for a value that is no \<^verbatim>\<open>Error\<close>. The accumulated listing, the exhausted flag and the
  current page stay as they were. A retry after that clears the error and sends a request
  for page 1, whatever page had failed.
\<close>

theorem page_failure_keeps_listing:
  "(\<forall>n r err s. check_ok r = Inl err \<longrightarrow>
       error (fetchUsers_resolve n r s) = Some (catch_message ''Failed to fetch users'' err)
     \<and> users (fetchUsers_resolve n r s) = users s
     \<and> hasMore (fetchUsers_resolve n r s) = hasMore s
     \<and> page (fetchUsers_resolve n r s) = page s
     \<and> error (retryFetch (fetchUsers_resolve n r s)) = None)
   \<and> (\<forall>sys. retry_button (ui sys) \<longrightarrow>
         pages_sent_by [RetryClicked] sys = [1]
       \<and> error (ui (step RetryClicked sys)) = None)
   \<and> (\<forall>err. check_ok (Threw err :: user list outcome) = Inl err)
   \<and> (\<forall>st data. check_ok (Responded False st data :: user list outcome)
         = Inl (ErrorObject (''HTTP error! status: '' @ string_of_nat st)))
   \<and> (\<forall>fallback m. catch_message fallback (ErrorObject m) = m)
   \<and> (\<forall>fallback. catch_message fallback OtherValue = fallback)"
proof (intro conjI allI impI)
  fix n :: nat and r :: "user list outcome" and err and s :: view
  assume f: "check_ok r = Inl err"
  show "error (fetchUsers_resolve n r s) = Some (catch_message ''Failed to fetch users'' err)"
    by (simp add: fetchUsers_resolve_failure [OF f])
  show "users (fetchUsers_resolve n r s) = users s"
    by (simp add: fetchUsers_resolve_failure [OF f])
  show "hasMore (fetchUsers_resolve n r s) = hasMore s"
    by (simp add: fetchUsers_resolve_failure [OF f])
  show "page (fetchUsers_resolve n r s) = page s"
    by (simp add: fetchUsers_resolve_failure [OF f])
  show "error (retryFetch (fetchUsers_resolve n r s)) = None"
    by (simp add: retryFetch_eq)
next
  fix sys :: system
  assume b: "retry_button (ui sys)"
  then show "pages_sent_by [RetryClicked] sys = [1]"
    by (rule pages_sent_by_retry)
  from b show "error (ui (step RetryClicked sys)) = None"
    by (simp add: retryFetch_eq)
qed (simp_all add: http_error_def catch_message_def)


theorem page_failure_keeps_listing_witness:
  "check_ok (Responded False 403 [] :: user list outcome) = Inl (http_error 403)
   \<and> error (fetchUsers_resolve 2 (Responded False 403 []) (ui loaded))
       = Some ''HTTP error! status: 403''
   \<and> users (fetchUsers_resolve 2 (Responded False 403 []) (ui loaded)) = users (ui loaded)
   \<and> retry_button (ui page_two_refused)
   \<and> pages_sent_by [RetryClicked] page_two_refused = [1]
   \<and> error (ui (step RetryClicked page_two_refused)) = None"
proof -
  have c: "check_ok (Responded False 403 [] :: user list outcome) = Inl (http_error 403)"
    by simp
  have m: "catch_message ''Failed to fetch users'' (http_error 403) = ''HTTP error! status: 403''"
    by code_simp
  have b: "retry_button (ui page_two_refused)"
    by code_simp
  note f = page_failure_keeps_listing [THEN conjunct1, rule_format, OF c, of 2 "ui loaded"]
  note g = page_failure_keeps_listing [THEN conjunct2, THEN conjunct1, rule_format, OF b]
  from c b f g show ?thesis
    by (simp only: m simp_thms)
qed

section \<open>C6: clearing the query\<close>

text \<open>
  C6, as the code has it. There are two ways to clear the query.
  \<^item> The clear control acts at once, in any state: the searching flag is unset, the search
    result set is dropped, the query becomes the empty string, no search request is
    sent, and the display source becomes the accumulated listing as it is at that moment.
  \<^item> An edit of the search box to a blank value (empty or white space only) by itself
    changes the query and nothing else: the display source, the search result set and
    the searching flag stay as they were, no request is sent, and the debounce timer is
    pending. When that timer fires, the searching flag is unset, the search result set
    is dropped, no request is sent, and the display source becomes the accumulated
    listing as it is at that moment.

  Search activity never writes the accumulated listing: over any events other than the
  arrival of a page load (typing, firings of the timer, searches coming back with results
  or failing) the listing stays the same, so that after such events either way of
  clearing shows exactly the listing from before the search. \<^verbatim>\<open>searchUsers\<close> itself, called
  with a blank query, restores the listing it closed over and sends nothing.
\<close>

theorem clearing_restores_listing:
  "(\<forall>es sys. (\<forall>e \<in> set es. \<not> is_page_resolution e) \<longrightarrow>
       users (ui (run es sys)) = users (ui sys)
     \<and> (clear_control (ui (run es sys)) \<longrightarrow>
          filteredUsers (ui (step ClearClicked (run es sys))) = users (ui sys)
        \<and> searchResults (ui (step ClearClicked (run es sys))) = []
        \<and> \<not> isSearching (ui (step ClearClicked (run es sys)))
        \<and> searchQuery (ui (step ClearClicked (run es sys))) = []
        \<and> searches_sent_by [ClearClicked] (run es sys) = [])
     \<and> (\<forall>q. blank q \<longrightarrow> search_input (ui (run es sys)) \<longrightarrow>
            q \<noteq> searchQuery (ui (run es sys)) \<longrightarrow>
          filteredUsers (ui (run [Typed q, TimerFires] (run es sys))) = users (ui sys)
        \<and> searchResults (ui (run [Typed q, TimerFires] (run es sys))) = []
        \<and> \<not> isSearching (ui (run [Typed q, TimerFires] (run es sys)))
        \<and> searches_sent_by [Typed q, TimerFires] (run es sys) = []))
   \<and> (\<forall>sys. clear_control (ui sys) \<longrightarrow>
          filteredUsers (ui (step ClearClicked sys)) = users (ui sys)
        \<and> users (ui (step ClearClicked sys)) = users (ui sys)
        \<and> searchResults (ui (step ClearClicked sys)) = []
        \<and> \<not> isSearching (ui (step ClearClicked sys))
        \<and> searchQuery (ui (step ClearClicked sys)) = []
        \<and> searches_sent_by [ClearClicked] sys = [])
   \<and> (\<forall>sys q. blank q \<longrightarrow> search_input (ui sys) \<longrightarrow> q \<noteq> searchQuery (ui sys) \<longrightarrow>
          searchQuery (ui (step (Typed q) sys)) = q
        \<and> filteredUsers (ui (step (Typed q) sys)) = filteredUsers (ui sys)
        \<and> searchResults (ui (step (Typed q) sys)) = searchResults (ui sys)
        \<and> isSearching (ui (step (Typed q) sys)) = isSearching (ui sys)
        \<and> timer (step (Typed q) sys)
        \<and> searches_sent_by [Typed q] sys = []
        \<and> filteredUsers (ui (run [Typed q, TimerFires] sys)) = users (ui sys)
        \<and> users (ui (run [Typed q, TimerFires] sys)) = users (ui sys)
        \<and> searchResults (ui (run [Typed q, TimerFires] sys)) = []
        \<and> \<not> isSearching (ui (run [Typed q, TimerFires] sys))
        \<and> searches_sent_by [Typed q, TimerFires] sys = [])
   \<and> (\<forall>captured q s. blank q \<longrightarrow>
         searchUsers_call captured q s
           = (s\<lparr>isSearching := False, searchResults := [], filteredUsers := captured\<rparr>, None))"
proof (intro conjI allI impI)
  fix es and sys :: system
  assume n: "\<forall>e \<in> set es. \<not> is_page_resolution e"
  then show u: "users (ui (run es sys)) = users (ui sys)"
    by (rule users_run_other)
  {
    assume c: "clear_control (ui (run es sys))"
    note s = step_ClearClicked [OF c]
    show "filteredUsers (ui (step ClearClicked (run es sys))) = users (ui sys)"
      unfolding s by (simp add: clearSearch_def u)
    show "searchResults (ui (step ClearClicked (run es sys))) = []"
      unfolding s by (simp add: clearSearch_def)
    show "\<not> isSearching (ui (step ClearClicked (run es sys)))"
      unfolding s by (simp add: clearSearch_def)
    show "searchQuery (ui (step ClearClicked (run es sys))) = []"
      unfolding s by (simp add: clearSearch_def)
    show "searches_sent_by [ClearClicked] (run es sys) = []"
      unfolding searches_sent_by_def by simp
  }
  {
    fix q
    assume b: "blank q" "search_input (ui (run es sys))" "q \<noteq> searchQuery (ui (run es sys))"
    note r = run_clear_by_typing [OF b]
    show "filteredUsers (ui (run [Typed q, TimerFires] (run es sys))) = users (ui sys)"
      unfolding r by (simp add: u)
    show "searchResults (ui (run [Typed q, TimerFires] (run es sys))) = []"
      unfolding r by simp
    show "\<not> isSearching (ui (run [Typed q, TimerFires] (run es sys)))"
      unfolding r by simp
    show "searches_sent_by [Typed q, TimerFires] (run es sys) = []"
      unfolding searches_sent_by_def r by simp
  }
next
  fix sys :: system
  assume c: "clear_control (ui sys)"
  note s = step_ClearClicked [OF c]
  show "filteredUsers (ui (step ClearClicked sys)) = users (ui sys)"
    unfolding s by (simp add: clearSearch_def)
  show "users (ui (step ClearClicked sys)) = users (ui sys)"
    unfolding s by simp
  show "searchResults (ui (step ClearClicked sys)) = []"
    unfolding s by (simp add: clearSearch_def)
  show "\<not> isSearching (ui (step ClearClicked sys))"
    unfolding s by (simp add: clearSearch_def)
  show "searchQuery (ui (step ClearClicked sys)) = []"
    unfolding s by (simp add: clearSearch_def)
  show "searches_sent_by [ClearClicked] sys = []"
    unfolding searches_sent_by_def by simp
next
  fix sys :: system and q
  assume b: "blank q" "search_input (ui sys)" "q \<noteq> searchQuery (ui sys)"
  note t = step_Typed_new [OF b(2) b(3)]
  note r = run_clear_by_typing [OF b]
  show "searchQuery (ui (step (Typed q) sys)) = q"
    unfolding t by simp
  show "filteredUsers (ui (step (Typed q) sys)) = filteredUsers (ui sys)"
    unfolding t by simp
  show "searchResults (ui (step (Typed q) sys)) = searchResults (ui sys)"
    unfolding t by simp
  show "isSearching (ui (step (Typed q) sys)) = isSearching (ui sys)"
    unfolding t by simp
  show "timer (step (Typed q) sys)"
    unfolding t by simp
  have "run [Typed q] sys = step (Typed q) sys"
    by simp
  then show "searches_sent_by [Typed q] sys = []"
    unfolding searches_sent_by_def t by simp
  show "filteredUsers (ui (run [Typed q, TimerFires] sys)) = users (ui sys)"
    unfolding r by simp
  show "users (ui (run [Typed q, TimerFires] sys)) = users (ui sys)"
    unfolding r by simp
  show "searchResults (ui (run [Typed q, TimerFires] sys)) = []"
    unfolding r by simp
  show "\<not> isSearching (ui (run [Typed q, TimerFires] sys))"
    unfolding r by simp
  show "searches_sent_by [Typed q, TimerFires] sys = []"
    unfolding searches_sent_by_def r by simp
next
  fix captured q and s :: view
  assume "blank q"
  then show "searchUsers_call captured q s
           = (s\<lparr>isSearching := False, searchResults := [], filteredUsers := captured\<rparr>, None)"
    by (simp add: searchUsers_call_def)
qed

theorem clearing_restores_listing_witness:
  "list_all (\<lambda>e. \<not> is_page_resolution e) torvalds_scenario
   \<and> filteredUsers (ui (run torvalds_scenario loaded)) = [torvalds]
   \<and> clear_control (ui (run torvalds_scenario loaded))
   \<and> filteredUsers (ui (step ClearClicked (run torvalds_scenario loaded))) = users (ui loaded)
   \<and> blank '' '' \<and> search_input (ui (run torvalds_scenario loaded))
   \<and> '' '' \<noteq> searchQuery (ui (run torvalds_scenario loaded))
   \<and> filteredUsers (ui (step (Typed '' '') (run torvalds_scenario loaded))) = [torvalds]
   \<and> timer (step (Typed '' '') (run torvalds_scenario loaded))
   \<and> filteredUsers (ui (run [Typed '' '', TimerFires] (run torvalds_scenario loaded)))
       = users (ui loaded)
   \<and> searches_sent_by [Typed '' '', TimerFires] (run torvalds_scenario loaded) = []
   \<and> users (ui loaded) = [sample_user 1]"
proof -
  have l: "list_all (\<lambda>e. \<not> is_page_resolution e) torvalds_scenario"
    by code_simp
  then have n: "\<forall>e \<in> set torvalds_scenario. \<not> is_page_resolution e"
    by (simp only: list_all_iff)
  have f: "filteredUsers (ui (run torvalds_scenario loaded)) = [torvalds]"
    by code_simp
  have c: "clear_control (ui (run torvalds_scenario loaded))"
    by code_simp
  have b: "blank '' ''" "search_input (ui (run torvalds_scenario loaded))"
    "'' '' \<noteq> searchQuery (ui (run torvalds_scenario loaded))"
    by code_simp+
  have u: "users (ui loaded) = [sample_user 1]"
    by code_simp
  note t = clearing_restores_listing [THEN conjunct1, THEN spec [where x = torvalds_scenario],
      THEN spec [where x = loaded], THEN mp, OF n]
  note t1 = t [THEN conjunct2, THEN conjunct1, rule_format, OF c]
  note t2 = t [THEN conjunct2, THEN conjunct2, rule_format, OF b]
  note t3 = clearing_restores_listing [THEN conjunct2, THEN conjunct2, THEN conjunct1,
      rule_format, OF b]
  from t3 f have g: "filteredUsers (ui (step (Typed '' '') (run torvalds_scenario loaded)))
      = [torvalds]"
    by (simp only:)
  from l f c b u t1 t2 t3 g show ?thesis
    by (simp only: simp_thms)
qed

text \<open>
  The claim as the specification words it has every clearing act at once and restore
  the listing from before the search. Neither holds for every run. First, the search
  for \<^verbatim>\<open>torvalds\<close> has come back and the user empties the search box: the query is empty,
  and the display source still is the search result, until the timer fires. Second,
  page 2 is requested, the user starts a search, and page 2 arrives while the search is
  on: the clear control then shows a listing of two users, where the listing from
  before the search had one.
\<close>

theorem clearing_counterexample:
  "filteredUsers (ui (run torvalds_scenario loaded)) = [torvalds]
   \<and> blank []
   \<and> searchQuery (ui (step (Typed []) (run torvalds_scenario loaded))) = []
   \<and> filteredUsers (ui (step (Typed []) (run torvalds_scenario loaded))) = [torvalds]
   \<and> searchResults (ui (step (Typed []) (run torvalds_scenario loaded))) = [torvalds]
   \<and> users (ui (step (Typed []) (run torvalds_scenario loaded))) = [sample_user 1]
   \<and> searches_in_flight (step (Typed []) (run torvalds_scenario loaded)) = []
   \<and> users (ui loaded) = [sample_user 1]
   \<and> searchQuery (ui (run page_lands_in_search loaded)) = ''a''
   \<and> clear_control (ui (run page_lands_in_search loaded))
   \<and> filteredUsers (ui (step ClearClicked (run page_lands_in_search loaded)))
       = [sample_user 1, sample_user 2]"
  by code_simp

section \<open>C7: a burst of edits\<close>

text \<open>
  C7, as the code has it. A burst is a sequence of edits of the search box, each of which
  changes its value, with no firing of the timer in between (every edit comes within
  the delay of the one before, and every edit clears the pending timer and sets a new
  one). During the burst no search request is sent and a timer is pending. When the
  timer fires after the burst, exactly one request is sent, for the last value of the
  burst, if that value is not blank; if it is blank, no request is sent. Either way no
  timer is pending afterwards.
\<close>

theorem debounce_burst:
  assumes "search_input (ui sys)" and "qs \<noteq> []"
    and "distinct_adj (searchQuery (ui sys) # qs)"
  shows "searches_sent_by (map Typed qs) sys = []
    \<and> timer (run (map Typed qs) sys)
    \<and> searchQuery (ui (run (map Typed qs) sys)) = last qs
    \<and> searches_sent_by (map Typed qs @ [TimerFires]) sys
        = (if blank (last qs) then [] else [(last qs, users (ui sys))])
    \<and> \<not> timer (run (map Typed qs @ [TimerFires]) sys)"
proof -
  let ?typed = "sys\<lparr>ui := (ui sys)\<lparr>searchQuery := last qs\<rparr>, timer := True\<rparr>"
  have b: "run (map Typed qs) sys = ?typed"
    using assms by (rule run_burst)
  have f: "run (map Typed qs @ [TimerFires]) sys = step TimerFires ?typed"
    by (simp add: run_append b)
  have "search_sent (step TimerFires ?typed)
      = search_sent sys @ (if blank (last qs) then [] else [(last qs, users (ui sys))])"
    using step_TimerFires_pending [of ?typed] by simp
  then have "searches_sent_by (map Typed qs @ [TimerFires]) sys
        = (if blank (last qs) then [] else [(last qs, users (ui sys))])"
    unfolding searches_sent_by_def f by simp
  moreover have "\<not> timer (run (map Typed qs @ [TimerFires]) sys)"
    unfolding f by (rule timer_step_TimerFires)
  moreover have "searches_sent_by (map Typed qs) sys = []"
    unfolding searches_sent_by_def b by simp
  ultimately show ?thesis
    by (simp add: b)
qed

theorem debounce_burst_witness:
  "search_input (ui loaded) \<and> [''t'', ''to'', ''tor''] \<noteq> []
   \<and> distinct_adj (searchQuery (ui loaded) # [''t'', ''to'', ''tor''])
   \<and> \<not> blank ''tor''
   \<and> searches_sent_by (map Typed [''t'', ''to'', ''tor''] @ [TimerFires]) loaded
       = [(''tor'', users (ui loaded))]"
proof -
  have a: "search_input (ui loaded)" "[''t'', ''to'', ''tor''] \<noteq> []"
    "distinct_adj (searchQuery (ui loaded) # [''t'', ''to'', ''tor''])"
    by code_simp+
  have n: "\<not> blank ''tor''"
    by code_simp
  note t = debounce_burst [OF a]
  from a n t show ?thesis
    by simp
qed

text \<open>
  The claim as the specification words it promises exactly one request for every burst.
  The user types \<^verbatim>\<open>a\<close> and deletes it again within the delay: the timer fires on an
  empty query and no request is sent.
\<close>

theorem debounce_counterexample:
  "searches_sent_by [Typed ''a'', Typed [], TimerFires] loaded = []"
  by code_simp

section \<open>C8: a failed search\<close>

text \<open>
  C8. When a search request fails, the \<^verbatim>\<open>catch\<close> block stores a message. It resets the
  display source to the accumulated listing only if the query of the request is blank,
  and no request is ever sent with a blank query: in every run of the view a failed
  search leaves the display source as it was, so the results of the last successful
  search, if any, stay on the screen. (The search result set itself, which feeds the
  counters, is emptied.)
\<close>

theorem search_failure_keeps_display:
  "(\<forall>req r err s. check_ok r = Inl err \<longrightarrow>
       error (searchUsers_resolve req r s) = Some (catch_message ''Failed to search users'' err)
     \<and> filteredUsers (searchUsers_resolve req r s)
         = (if blank (fst req) then snd req else filteredUsers s))
   \<and> (\<forall>req req' r err st items s. check_ok r = Inl err \<longrightarrow> \<not> blank (fst req') \<longrightarrow>
         filteredUsers (searchUsers_resolve req' r
            (searchUsers_resolve req (Responded True st (Some items)) s)) = items)
   \<and> (\<forall>es i r err. check_ok r = Inl err \<longrightarrow> i < length (search_sent (run es mount)) \<longrightarrow>
         filteredUsers (ui (step (SearchResolves i r) (run es mount)))
           = filteredUsers (ui (run es mount)))"
proof (intro conjI allI impI)
  fix req :: search_request and r :: "user list option outcome" and err and s :: view
  assume f: "check_ok r = Inl err"
  show "error (searchUsers_resolve req r s) = Some (catch_message ''Failed to search users'' err)"
    by (simp add: searchUsers_resolve_failure [OF f])
  show "filteredUsers (searchUsers_resolve req r s)
         = (if blank (fst req) then snd req else filteredUsers s)"
    by (simp add: searchUsers_resolve_failure [OF f])
next
  fix req req' :: search_request and r :: "user list option outcome" and err st items
    and s :: view
  assume f: "check_ok r = Inl err" and q: "\<not> blank (fst req')"
  show "filteredUsers (searchUsers_resolve req' r
            (searchUsers_resolve req (Responded True st (Some items)) s)) = items"
    using q by (simp add: searchUsers_resolve_failure [OF f] searchUsers_resolve_success)
next
  fix es i and r :: "user list option outcome" and err
  assume f: "check_ok r = Inl err" and i: "i < length (search_sent (run es mount))"
  have "queries_not_blank (run es mount)"
    by (rule queries_not_blank_run)
  with i have "\<not> blank (fst (search_sent (run es mount) ! i))"
    by (simp add: queries_not_blank_def list_all_length)
  then show "filteredUsers (ui (step (SearchResolves i r) (run es mount)))
           = filteredUsers (ui (run es mount))"
    by (simp add: searchUsers_resolve_failure [OF f])
qed

theorem search_failure_keeps_display_witness:
  "check_ok (Threw (ErrorObject ''Failed to fetch'') :: user list option outcome)
     = Inl (ErrorObject ''Failed to fetch'')
   \<and> 1 < length (search_sent (run second_search mount))
   \<and> filteredUsers (ui (run second_search mount)) = [torvalds]
   \<and> filteredUsers (ui (step (SearchResolves 1 (Threw (ErrorObject ''Failed to fetch'')))
        (run second_search mount))) = [torvalds]
   \<and> error (ui (step (SearchResolves 1 (Threw (ErrorObject ''Failed to fetch'')))
        (run second_search mount))) = Some ''Failed to fetch''"
proof -
  have c: "check_ok (Threw (ErrorObject ''Failed to fetch'') :: user list option outcome)
     = Inl (ErrorObject ''Failed to fetch'')"
    by simp
  have l: "1 < length (search_sent (run second_search mount))"
    by code_simp
  have d: "filteredUsers (ui (run second_search mount)) = [torvalds]"
    by code_simp
  have e: "error (ui (step (SearchResolves 1 (Threw (ErrorObject ''Failed to fetch'')))
        (run second_search mount))) = Some ''Failed to fetch''"
    by code_simp
  note k = search_failure_keeps_display [THEN conjunct2, THEN conjunct2, rule_format, OF c l]
  from c l d e k show ?thesis
    by (simp only: simp_thms)
qed

section \<open>C9: a successful search\<close>

text \<open>
  C9. When a search request comes back with a response that is \<^verbatim>\<open>ok\<close>, the search result
  set becomes the \<^verbatim>\<open>items\<close> of the body, or the empty sequence when the body has no
  \<^verbatim>\<open>items\<close>, and no error is stored for that; the display source becomes the same
  sequence; the accumulated listing is not touched. In the scenario of the specification the display source is exactly the
  one item found and the listing is the one of before.
\<close>

theorem search_success_replaces_results:
  "searchResults (searchUsers_resolve req (Responded True st body) s)
     = (case body of None \<Rightarrow> [] | Some items \<Rightarrow> items)
   \<and> filteredUsers (searchUsers_resolve req (Responded True st body) s)
     = searchResults (searchUsers_resolve req (Responded True st body) s)
   \<and> users (searchUsers_resolve req (Responded True st body) s) = users s
   \<and> error (searchUsers_resolve req (Responded True st body) s) = error s
   \<and> searchResults (ui (run torvalds_scenario loaded)) = [torvalds]
   \<and> filteredUsers (ui (run torvalds_scenario loaded)) = [torvalds]
   \<and> users (ui (run torvalds_scenario loaded)) = users (ui loaded)"
proof (intro conjI)
  show "searchResults (searchUsers_resolve req (Responded True st body) s)
     = (case body of None \<Rightarrow> [] | Some items \<Rightarrow> items)"
    by (simp add: searchUsers_resolve_success)
  show "filteredUsers (searchUsers_resolve req (Responded True st body) s)
     = searchResults (searchUsers_resolve req (Responded True st body) s)"
    by (simp add: searchUsers_resolve_success)
  show "users (searchUsers_resolve req (Responded True st body) s) = users s"
    by simp
  show "error (searchUsers_resolve req (Responded True st body) s) = error s"
    by (simp add: searchUsers_resolve_success)
  show "searchResults (ui (run torvalds_scenario loaded)) = [torvalds]"
    by code_simp
  show "filteredUsers (ui (run torvalds_scenario loaded)) = [torvalds]"
    by code_simp
  show "users (ui (run torvalds_scenario loaded)) = users (ui loaded)"
    by code_simp
qed

section \<open>C10: the loading screen\<close>

text \<open>
  C10. The only event that sets the initialized flag is the arrival of a page load in
  flight for page 1 whose response is \<^verbatim>\<open>ok\<close> with a non-empty body. While the flag is unset
  the component renders the loading screen, which has no error message, no retry button
  and no end-of-results notice. When the first load of a fresh view fails, the error is
  stored, and when it comes back empty, the listing is marked exhausted; in both cases,
  whatever happens afterwards, the loading screen stays and no page request is sent
  again.
\<close>

theorem initialized_only_by_first_page:
  "(\<forall>e sys. isInitialized (ui (step e sys)) \<longrightarrow> \<not> isInitialized (ui sys) \<longrightarrow>
      (\<exists>i st data. e = PageResolves i (Responded True st data) \<and> data \<noteq> []
         \<and> i < length (page_sent sys) \<and> i \<notin> set (page_done sys) \<and> page_sent sys ! i = 1))
   \<and> (\<forall>s. \<not> isInitialized s \<longrightarrow> render s = LoadingScreen)
   \<and> (\<forall>r err es. check_ok r = Inl err \<longrightarrow>
         error (ui (step (PageResolves 0 r) mount))
           = Some (catch_message ''Failed to fetch users'' err)
       \<and> render (ui (run es (step (PageResolves 0 r) mount))) = LoadingScreen
       \<and> \<not> retry_button (ui (run es (step (PageResolves 0 r) mount)))
       \<and> pages_sent_by es (step (PageResolves 0 r) mount) = [])
   \<and> (\<forall>st es.
         \<not> hasMore (ui (step (PageResolves 0 (Responded True st [])) mount))
       \<and> render (ui (run es (step (PageResolves 0 (Responded True st [])) mount))) = LoadingScreen
       \<and> \<not> retry_button (ui (run es (step (PageResolves 0 (Responded True st [])) mount)))
       \<and> pages_sent_by es (step (PageResolves 0 (Responded True st [])) mount) = [])"
proof (intro conjI allI impI)
  fix e and sys :: system
  assume "isInitialized (ui (step e sys))" and "\<not> isInitialized (ui sys)"
  then have "\<exists>i r. e = PageResolves i r \<and> stores_users r \<and> i < length (page_sent sys)
           \<and> i \<notin> set (page_done sys) \<and> page_sent sys ! i = 1"
    by (rule isInitialized_step)
  then show "\<exists>i st data. e = PageResolves i (Responded True st data) \<and> data \<noteq> []
         \<and> i < length (page_sent sys) \<and> i \<notin> set (page_done sys) \<and> page_sent sys ! i = 1"
    unfolding stores_users_iff by blast
next
  fix s :: view
  assume "\<not> isInitialized s"
  then show "render s = LoadingScreen"
    by (rule render_uninitialized)
next
  fix r :: "user list outcome" and err es
  assume f: "check_ok r = Inl err"
  then have n: "\<not> stores_users r"
    by (simp add: stores_users_def)
  show "error (ui (step (PageResolves 0 r) mount))
           = Some (catch_message ''Failed to fetch users'' err)"
    by (simp add: mount_def fetchUsers_resolve_failure [OF f])
  show l: "render (ui (run es (step (PageResolves 0 r) mount))) = LoadingScreen"
    using n by (rule stuck_on_loading_screen)
  show "\<not> retry_button (ui (run es (step (PageResolves 0 r) mount)))"
    unfolding retry_button_def l by simp
  show "pages_sent_by es (step (PageResolves 0 r) mount) = []"
    using n by (rule stuck_on_loading_screen)
next
  fix st es
  have n: "\<not> stores_users (Responded True st [])"
    by (simp add: stores_users_def)
  show "\<not> hasMore (ui (step (PageResolves 0 (Responded True st [])) mount))"
    by (simp add: mount_def hasMore_fetchUsers_resolve)
  show l: "render (ui (run es (step (PageResolves 0 (Responded True st [])) mount))) = LoadingScreen"
    using n by (rule stuck_on_loading_screen)
  show "\<not> retry_button (ui (run es (step (PageResolves 0 (Responded True st [])) mount)))"
    unfolding retry_button_def l by simp
  show "pages_sent_by es (step (PageResolves 0 (Responded True st [])) mount) = []"
    using n by (rule stuck_on_loading_screen)
qed

theorem initialized_only_by_first_page_witness:
  "isInitialized (ui (step (PageResolves 0 (Responded True 200 [sample_user 1])) mount))
   \<and> \<not> isInitialized (ui mount)
   \<and> (\<exists>i st data. PageResolves 0 (Responded True 200 [sample_user 1])
          = PageResolves i (Responded True st data) \<and> data \<noteq> []
         \<and> i < length (page_sent mount) \<and> i \<notin> set (page_done mount) \<and> page_sent mount ! i = 1)
   \<and> render (ui mount) = LoadingScreen
   \<and> check_ok (Threw (ErrorObject ''Failed to fetch'') :: user list outcome)
        = Inl (ErrorObject ''Failed to fetch'')
   \<and> error (ui (step (PageResolves 0 (Threw (ErrorObject ''Failed to fetch''))) mount))
        = Some ''Failed to fetch''
   \<and> render (ui (run stuck_events
        (step (PageResolves 0 (Threw (ErrorObject ''Failed to fetch''))) mount))) = LoadingScreen"
proof -
  have a: "isInitialized (ui (step (PageResolves 0 (Responded True 200 [sample_user 1])) mount))"
    "\<not> isInitialized (ui mount)"
    by code_simp+
  have c: "check_ok (Threw (ErrorObject ''Failed to fetch'') :: user list outcome)
        = Inl (ErrorObject ''Failed to fetch'')"
    by simp
  have m: "catch_message ''Failed to fetch users'' (ErrorObject ''Failed to fetch'')
        = ''Failed to fetch''"
    by (simp add: catch_message_def)
  note p = initialized_only_by_first_page [THEN conjunct1, rule_format, OF a]
  note q = initialized_only_by_first_page [THEN conjunct2, THEN conjunct1, rule_format, OF a(2)]
  note r = initialized_only_by_first_page [THEN conjunct2, THEN conjunct2, THEN conjunct1,
      rule_format, OF c, of stuck_events]
  from a c p q r show ?thesis
    by (simp only: m simp_thms)
qed

end
